theory Spec2Isabelle
  imports Main
begin

section \<open>The task repositories\<close>

text \<open>
  The program keeps a list of tasks behind the interface \<open>ITaskRepository\<close>, with the
  methods \<open>addTask\<close>, \<open>getTasks\<close> and \<open>markTaskCompleted\<close>. Two classes implement it:
  \<open>InMemoryTaskRepository\<close> (a vector of tasks) and \<open>FileTaskRepository\<close> (a text file,
  one task per line). Both are embedded below, method by method. The index of
  \<open>markTaskCompleted\<close> is a C++ \<open>int\<close>; no arithmetic is done on it, so it is an \<open>int\<close>
  here, and its comparison with the unsigned \<open>size()\<close> is the comparison of \<open>nat index\<close>,
  which the guard \<open>index >= 0\<close> in front of it makes exact.
\<close>

subsection \<open>InMemoryTaskRepository\<close>

record Task =
  description :: string
  completed :: bool

record InMemoryTaskRepository =
  tasks :: "Task list"

text \<open>A default-constructed repository: the vector is empty.\<close>

definition InMemory_new :: InMemoryTaskRepository where
  "InMemory_new = \<lparr>tasks = []\<rparr>"

definition InMemory_addTask :: "string \<Rightarrow> InMemoryTaskRepository \<Rightarrow> InMemoryTaskRepository" where
  "InMemory_addTask task r = r\<lparr>tasks := tasks r @ [\<lparr>description = task, completed = False\<rparr>]\<rparr>"

definition InMemory_getTasks :: "InMemoryTaskRepository \<Rightarrow> string list" where
  "InMemory_getTasks r =
     map (\<lambda>task. if completed task then ''[X] '' @ description task
                  else ''[ ] '' @ description task) (tasks r)"

definition InMemory_markTaskCompleted :: "int \<Rightarrow> InMemoryTaskRepository \<Rightarrow> InMemoryTaskRepository" where
  "InMemory_markTaskCompleted index r =
     (if index \<ge> 0 \<and> nat index < length (tasks r)
      then r\<lparr>tasks := (tasks r)[nat index := (tasks r ! nat index)\<lparr>completed := True\<rparr>]\<rparr>
      else r)"

subsection \<open>Strings and streams of the C++ library\<close>

text \<open>
  A position of type \<open>size_t\<close> is \<open>Some p\<close>, or \<open>None\<close> for \<open>string::npos\<close>, the largest
  value of the type, which no string length reaches. \<open>find\<close> (here \<open>find_char\<close>) gives the position of
  the first occurrence of a character, or \<open>npos\<close>. Adding one to \<open>npos\<close> wraps around to
  zero; adding one to a position inside a string does not wrap.
\<close>

type_synonym size_type = "nat option"

definition find_char :: "string \<Rightarrow> char \<Rightarrow> size_type" where
  "find_char s ch = (if ch \<in> set s then Some (length (takeWhile (\<lambda>c. c \<noteq> ch) s)) else None)"

definition plus_one :: "size_type \<Rightarrow> size_type" where
  "plus_one pos = (case pos of None \<Rightarrow> Some 0 | Some p \<Rightarrow> Some (p + 1))"

text \<open>
  \<open>s.substr(pos, count)\<close> throws \<open>std::out_of_range\<close> when \<open>pos\<close> is beyond the size of the
  string; otherwise it is the part from \<open>pos\<close> on, of at most \<open>count\<close> characters
  (\<open>count = npos\<close>, the default, takes all of them).
\<close>

datatype exn = OutOfRange

definition substr :: "string \<Rightarrow> size_type \<Rightarrow> size_type \<Rightarrow> exn + string" where
  "substr s pos count =
     (case pos of
        None \<Rightarrow> Inl OutOfRange
      | Some p \<Rightarrow>
          if p > length s then Inl OutOfRange
          else Inr (case count of None \<Rightarrow> drop p s | Some n \<Rightarrow> take n (drop p s)))"

text \<open>
  An input stream is the text not yet read. \<open>getline\<close> fails (the loop condition is
  false) when nothing is left; otherwise it extracts the characters up to the next
  newline, or up to the end of the text, and discards that newline.
\<close>

definition getline :: "string \<Rightarrow> (string \<times> string) option" where
  "getline s =
     (if s = [] then None
      else Some (takeWhile (\<lambda>c. c \<noteq> CHR ''\<newline>'') s,
                 drop 1 (dropWhile (\<lambda>c. c \<noteq> CHR ''\<newline>'') s)))"

subsection \<open>The file system\<close>

text \<open>
  A path names a file that exists with some contents or does not exist
  (\<open>contents = None\<close>). Opening it can fail, and the program tests \<open>is_open()\<close> after
  each open: \<open>may_read\<close> says whether an existing file opens for reading, \<open>may_write\<close>
  whether the path opens for writing, which creates the file when it is missing.
\<close>

record file_state =
  contents :: "string option"
  may_read :: bool
  may_write :: bool

type_synonym file_system = "string \<Rightarrow> file_state"

text \<open>\<open>ifstream file(path)\<close>: the text of the file when \<open>is_open()\<close>, else \<open>None\<close>.\<close>

definition ifstream :: "file_system \<Rightarrow> string \<Rightarrow> string option" where
  "ifstream fs path =
     (case contents (fs path) of
        None \<Rightarrow> None
      | Some body \<Rightarrow> if may_read (fs path) then Some body else None)"

text \<open>
  \<open>ofstream file(path, ios::app)\<close> keeps what the file holds and \<open>ofstream file(path)\<close>
  truncates it; both create a missing file. The result is the text that the writes
  of the program are appended to, or \<open>None\<close> when the stream is not open.
\<close>

definition ofstream_app :: "file_system \<Rightarrow> string \<Rightarrow> string option" where
  "ofstream_app fs path =
     (if may_write (fs path)
      then Some (case contents (fs path) of None \<Rightarrow> [] | Some body \<Rightarrow> body)
      else None)"

definition ofstream_trunc :: "file_system \<Rightarrow> string \<Rightarrow> string option" where
  "ofstream_trunc fs path = (if may_write (fs path) then Some [] else None)"

text \<open>
  The file system in which the file at a path holds a given text, all else as before:
  what an output stream leaves behind when it is closed.
\<close>

definition with_text :: "file_system \<Rightarrow> string \<Rightarrow> string \<Rightarrow> file_system" where
  "with_text fs path body = fs(path := (fs path)\<lparr>contents := Some body\<rparr>)"

subsection \<open>FileTaskRepository\<close>

record FileTaskRepository =
  filePath :: string

definition File_new :: "string \<Rightarrow> FileTaskRepository" where
  "File_new path = \<lparr>filePath = path\<rparr>"

definition File_addTask :: "FileTaskRepository \<Rightarrow> string \<Rightarrow> file_system \<Rightarrow> file_system" where
  "File_addTask r task fs =
     (case ofstream_app fs (filePath r) of
        None \<Rightarrow> fs
      | Some body \<Rightarrow> with_text fs (filePath r) (body @ task @ '',false\<newline>''))"

text \<open>The body of the loop of \<open>getTasks\<close>: one line of the file to one display string.\<close>

definition File_getTasks_line :: "string \<Rightarrow> exn + string" where
  "File_getTasks_line line =
     (let commaPos = find_char line (CHR '','') in
      case substr line (Some 0) commaPos of
        Inl e \<Rightarrow> Inl e
      | Inr descr \<Rightarrow>
          (case substr line (plus_one commaPos) None of
             Inl e \<Rightarrow> Inl e
           | Inr flag \<Rightarrow>
               let completed' = (flag = ''true'') in
               Inr (if completed' then ''[X] '' @ descr else ''[ ] '' @ descr)))"

function File_getTasks_loop :: "string \<Rightarrow> string list \<Rightarrow> exn + string list" where
  "File_getTasks_loop s acc =
     (case getline s of
        None \<Rightarrow> Inr acc
      | Some (line, s') \<Rightarrow>
          (case File_getTasks_line line of
             Inl e \<Rightarrow> Inl e
           | Inr t \<Rightarrow> File_getTasks_loop s' (acc @ [t])))"
  by pat_completeness auto
termination
proof (relation "measure (\<lambda>(s, acc). length s)")
  show "wf (measure (\<lambda>(s, acc). length s))"
    by simp
next
  fix s :: string and acc :: "string list" and x line s' t
  assume "getline s = Some x" and "(line, s') = x"
  then have "s \<noteq> []" and "s' = drop 1 (dropWhile (\<lambda>c. c \<noteq> CHR ''\<newline>'') s)"
    by (auto simp: getline_def split: if_splits)
  moreover have "length (dropWhile (\<lambda>c. c \<noteq> CHR ''\<newline>'') s) \<le> length s"
    by (rule length_dropWhile_le)
  ultimately have "length s' < length s"
    by (cases s) auto
  then show "((s', acc @ [t]), (s, acc)) \<in> measure (\<lambda>(s, acc). length s)"
    by simp
qed

definition File_getTasks :: "FileTaskRepository \<Rightarrow> file_system \<Rightarrow> exn + string list" where
  "File_getTasks r fs =
     (case ifstream fs (filePath r) of
        None \<Rightarrow> Inr []
      | Some body \<Rightarrow> File_getTasks_loop body [])"

text \<open>The reading loop of \<open>markTaskCompleted\<close> collects the lines as they are.\<close>

function File_read_loop :: "string \<Rightarrow> string list \<Rightarrow> string list" where
  "File_read_loop s acc =
     (case getline s of
        None \<Rightarrow> acc
      | Some (line, s') \<Rightarrow> File_read_loop s' (acc @ [line]))"
  by pat_completeness auto
termination
proof (relation "measure (\<lambda>(s, acc). length s)")
  show "wf (measure (\<lambda>(s, acc). length s))"
    by simp
next
  fix s :: string and acc :: "string list" and x line s'
  assume "getline s = Some x" and "(line, s') = x"
  then have "s \<noteq> []" and "s' = drop 1 (dropWhile (\<lambda>c. c \<noteq> CHR ''\<newline>'') s)"
    by (auto simp: getline_def split: if_splits)
  moreover have "length (dropWhile (\<lambda>c. c \<noteq> CHR ''\<newline>'') s) \<le> length s"
    by (rule length_dropWhile_le)
  ultimately have "length s' < length s"
    by (cases s) auto
  then show "((s', acc @ [line]), (s, acc)) \<in> measure (\<lambda>(s, acc). length s)"
    by simp
qed

text \<open>The writing loop: every line, followed by a newline.\<close>

definition File_write_loop :: "string list \<Rightarrow> string \<Rightarrow> string" where
  "File_write_loop ls out = foldl (\<lambda>body line. body @ line @ ''\<newline>'') out ls"

definition File_markTaskCompleted :: "FileTaskRepository \<Rightarrow> int \<Rightarrow> file_system \<Rightarrow> exn + file_system" where
  "File_markTaskCompleted r index fs =
     (let ls = (case ifstream fs (filePath r) of
                  None \<Rightarrow> []
                | Some body \<Rightarrow> File_read_loop body []);
          changed =
            (if index \<ge> 0 \<and> nat index < length ls
             then (let commaPos = find_char (ls ! nat index) (CHR '','') in
                   case substr (ls ! nat index) (Some 0) (plus_one commaPos) of
                     Inl e \<Rightarrow> Inl e
                   | Inr prefix \<Rightarrow> Inr (ls[nat index := prefix @ ''true'']))
             else Inr ls)
      in case changed of
           Inl e \<Rightarrow> Inl e
         | Inr ls' \<Rightarrow>
             (case ofstream_trunc fs (filePath r) of
                None \<Rightarrow> Inr fs
              | Some body \<Rightarrow> Inr (with_text fs (filePath r) (File_write_loop ls' body))))"

subsection \<open>Sequences of calls through the interface\<close>

text \<open>
  A client such as \<open>TaskManagerUI\<close> holds one repository and calls the three methods of
  \<open>ITaskRepository\<close> on it, one after the other. \<open>getTasks\<close> is a \<open>const\<close> method: its
  result goes to the caller and the repository stays as it is. An exception leaving a
  method ends the sequence.
\<close>

datatype call = AddTask string | GetTasks | MarkTaskCompleted int

fun InMemory_call :: "call \<Rightarrow> InMemoryTaskRepository \<Rightarrow> InMemoryTaskRepository" where
  "InMemory_call (AddTask task) r = InMemory_addTask task r"
| "InMemory_call GetTasks r = r"
| "InMemory_call (MarkTaskCompleted index) r = InMemory_markTaskCompleted index r"

fun InMemory_run :: "call list \<Rightarrow> InMemoryTaskRepository \<Rightarrow> InMemoryTaskRepository" where
  "InMemory_run [] r = r"
| "InMemory_run (c # cs) r = InMemory_run cs (InMemory_call c r)"

fun File_call :: "FileTaskRepository \<Rightarrow> call \<Rightarrow> file_system \<Rightarrow> exn + file_system" where
  "File_call r (AddTask task) fs = Inr (File_addTask r task fs)"
| "File_call r GetTasks fs = (case File_getTasks r fs of Inl e \<Rightarrow> Inl e | Inr ts \<Rightarrow> Inr fs)"
| "File_call r (MarkTaskCompleted index) fs = File_markTaskCompleted r index fs"

fun File_run :: "FileTaskRepository \<Rightarrow> call list \<Rightarrow> file_system \<Rightarrow> exn + file_system" where
  "File_run r [] fs = Inr fs"
| "File_run r (c # cs) fs = (case File_call r c fs of Inl e \<Rightarrow> Inl e | Inr fs' \<Rightarrow> File_run r cs fs')"

text \<open>What \<open>getTasks\<close> returns after a sequence of calls.\<close>

definition InMemory_result :: "call list \<Rightarrow> InMemoryTaskRepository \<Rightarrow> string list" where
  "InMemory_result cs r = InMemory_getTasks (InMemory_run cs r)"

definition File_result :: "FileTaskRepository \<Rightarrow> call list \<Rightarrow> file_system \<Rightarrow> exn + string list" where
  "File_result r cs fs =
     (case File_run r cs fs of Inl e \<Rightarrow> Inl e | Inr fs' \<Rightarrow> File_getTasks r fs')"

text \<open>A file system in which no file exists and every path can be read and written.\<close>

definition no_files :: file_system where
  "no_files = (\<lambda>path. \<lparr>contents = None, may_read = True, may_write = True\<rparr>)"

text \<open>A file system in which no file exists and no path opens for writing.\<close>

definition no_files_read_only :: file_system where
  "no_files_read_only = (\<lambda>path. \<lparr>contents = None, may_read = True, may_write = False\<rparr>)"

section \<open>Notions used in the statements\<close>

text \<open>The lines of a text, as the reading loops see them.\<close>

definition lines_of :: "string \<Rightarrow> string list" where
  "lines_of s = File_read_loop s []"

text \<open>The lines that a repository reads from its file: none when the file does not open.\<close>

definition File_lines :: "FileTaskRepository \<Rightarrow> file_system \<Rightarrow> string list" where
  "File_lines r fs = (case ifstream fs (filePath r) of None \<Rightarrow> [] | Some body \<Rightarrow> lines_of body)"

text \<open>A text written line by line: every line is followed by a newline.\<close>

definition write_lines :: "string list \<Rightarrow> string" where
  "write_lines ls = concat (map (\<lambda>line. line @ ''\<newline>'') ls)"

text \<open>
  What the code computes from a line: the description shown, the text compared with
  \<open>true\<close>, the display string, and the line that \<open>markTaskCompleted\<close> puts in its place.
\<close>

definition line_description :: "string \<Rightarrow> string" where
  "line_description line = takeWhile (\<lambda>c. c \<noteq> CHR '','') line"

definition line_flag :: "string \<Rightarrow> string" where
  "line_flag line =
     (if CHR '','' \<in> set line then drop (Suc (length (line_description line))) line else line)"

definition display_line :: "string \<Rightarrow> string" where
  "display_line line =
     (if line_flag line = ''true'' then ''[X] '' else ''[ ] '') @ line_description line"

definition marked_line :: "string \<Rightarrow> string" where
  "marked_line line =
     (if CHR '','' \<in> set line then line_description line @ '','' else []) @ ''true''"

text \<open>
  The lines that \<open>markTaskCompleted\<close> writes back: the lines read, with the one at a valid
  index replaced.
\<close>

definition new_lines :: "int \<Rightarrow> string list \<Rightarrow> string list" where
  "new_lines index ls =
     (if index \<ge> 0 \<and> nat index < length ls
      then ls[nat index := marked_line (ls ! nat index)] else ls)"

text \<open>An entry of a listing that is shown as completed.\<close>

definition shown_completed :: "string list \<Rightarrow> nat \<Rightarrow> bool" where
  "shown_completed ts j = (j < length ts \<and> take 4 (ts ! j) = ''[X] '')"

text \<open>
  The decoding in the words of the specification: the description is the substring
  before the first comma, and the task is completed exactly when the substring after
  the first comma is \<open>true\<close>.
\<close>

definition spec_description :: "string \<Rightarrow> string" where
  "spec_description line = takeWhile (\<lambda>c. c \<noteq> CHR '','') line"

definition spec_after_comma :: "string \<Rightarrow> string" where
  "spec_after_comma line = drop 1 (dropWhile (\<lambda>c. c \<noteq> CHR '','') line)"

definition spec_display :: "string \<Rightarrow> string" where
  "spec_display line =
     (if spec_after_comma line = ''true'' then ''[X] '' @ spec_description line
      else ''[ ] '' @ spec_description line)"

text \<open>The text in a file; a file that does not exist has none.\<close>

definition text_of :: "string option \<Rightarrow> string" where
  "text_of c = (case c of None \<Rightarrow> [] | Some body \<Rightarrow> body)"

text \<open>
  A description that the line format carries unchanged has neither a comma nor a
  newline. A file that the repository has written is missing, empty, or ends with a
  newline.
\<close>

definition plain :: "string \<Rightarrow> bool" where
  "plain d = (CHR '','' \<notin> set d \<and> CHR ''\<newline>'' \<notin> set d)"

fun plain_call :: "call \<Rightarrow> bool" where
  "plain_call (AddTask task) = plain task"
| "plain_call GetTasks = True"
| "plain_call (MarkTaskCompleted index) = True"

definition closed_text :: "string option \<Rightarrow> bool" where
  "closed_text c = (case c of None \<Rightarrow> True | Some s \<Rightarrow> s = [] \<or> last s = CHR ''\<newline>'')"

text \<open>The line that stores a task, and the display string of a task.\<close>

definition encode :: "Task \<Rightarrow> string" where
  "encode t = description t @ '','' @ (if completed t then ''true'' else ''false'')"

definition show_task :: "Task \<Rightarrow> string" where
  "show_task t = (if completed t then ''[X] '' @ description t else ''[ ] '' @ description t)"

text \<open>
  The file of a file repository holds the tasks of an in-memory repository: its path
  opens for reading and for writing, the descriptions are plain, and the file has one
  line per task (or is still missing while there is no task).
\<close>

definition holds :: "FileTaskRepository \<Rightarrow> file_system \<Rightarrow> InMemoryTaskRepository \<Rightarrow> bool" where
  "holds r fs m =
     (may_read (fs (filePath r)) \<and> may_write (fs (filePath r)) \<and>
      list_all (\<lambda>t. plain (description t)) (tasks m) \<and>
      (contents (fs (filePath r)) = Some (write_lines (map encode (tasks m))) \<or>
       contents (fs (filePath r)) = None \<and> tasks m = []))"

section \<open>Properties of the embedding\<close>

subsection \<open>Reading and writing lines\<close>

lemma getline_Nil [simp]: "getline [] = None" by (simp add: getline_def)

lemma getline_line:
  "CHR ''\<newline>'' \<notin> set l \<Longrightarrow> getline (l @ CHR ''\<newline>'' # s) = Some (l, s)"
  by (induction l) (auto simp: getline_def)

declare File_read_loop.simps [simp del] File_getTasks_loop.simps [simp del]

lemma read_loop_append: "File_read_loop s (a @ b) = a @ File_read_loop s b"
proof (induction s b arbitrary: a rule: File_read_loop.induct)
  case (1 s b)
  show ?case
  proof (cases "getline s")
    case None
    then show ?thesis by (simp add: File_read_loop.simps [of s])
  next
    case (Some p)
    obtain l s' where p: "p = (l, s')" by (cases p)
    have "File_read_loop s (a @ b) = File_read_loop s' (a @ (b @ [l]))"
      using Some p by (simp add: File_read_loop.simps [of s])
    also have "\<dots> = a @ File_read_loop s' (b @ [l])"
      using "1.IH" [OF Some p [symmetric]] .
    also have "\<dots> = a @ File_read_loop s b"
      using Some p by (simp add: File_read_loop.simps [of s b])
    finally show ?thesis .
  qed
qed

lemma lines_of_Nil [simp]: "lines_of [] = []"
  by (simp add: lines_of_def File_read_loop.simps [of "[]"])

lemma lines_of_getline:
  "getline s = Some (l, s') \<Longrightarrow> lines_of s = l # lines_of s'"
  using read_loop_append [of s' "[l]" "[]"]
  by (simp add: lines_of_def File_read_loop.simps [of s "[]"])

lemma lines_of_line:
  "CHR ''\<newline>'' \<notin> set l \<Longrightarrow> lines_of (l @ CHR ''\<newline>'' # s) = l # lines_of s"
  by (rule lines_of_getline) (rule getline_line)

lemma read_loop_lines: "File_read_loop s acc = acc @ lines_of s"
  using read_loop_append [of s acc "[]"] by (simp add: lines_of_def)

lemma getline_cases:
  assumes "getline s = Some (l, s')"
  shows "CHR ''\<newline>'' \<notin> set l \<and> (s = l @ CHR ''\<newline>'' # s' \<or> (s = l \<and> s' = [] \<and> l \<noteq> []))"
proof -
  let ?P = "\<lambda>c. c \<noteq> CHR ''\<newline>''"
  from assms have ne: "s \<noteq> []" and l: "l = takeWhile ?P s" and s': "s' = drop 1 (dropWhile ?P s)"
    by (auto simp: getline_def split: if_splits)
  have nl: "CHR ''\<newline>'' \<notin> set l"
    unfolding l using set_takeWhileD by fastforce
  show ?thesis
  proof (cases "dropWhile ?P s")
    case Nil
    then have tw: "takeWhile ?P s = s"
      using takeWhile_dropWhile_id [of ?P s] by simp
    have "l = s" unfolding l by (rule tw)
    moreover have "s' = []" unfolding s' Nil by simp
    ultimately show ?thesis using nl ne by blast
  next
    case (Cons c cs)
    then have "c = CHR ''\<newline>''"
      using hd_dropWhile [of ?P s] by auto
    with Cons have "s = l @ CHR ''\<newline>'' # s'"
      unfolding l s' using takeWhile_dropWhile_id [of ?P s] by simp
    with nl show ?thesis by simp
  qed
qed

lemma lines_of_induct [case_names Nil line]:
  assumes "P []"
    and "\<And>s l s'. getline s = Some (l, s') \<Longrightarrow> P s' \<Longrightarrow> P s"
  shows "P s"
proof -
  have "P s" for acc :: "string list"
  proof (induction s acc rule: File_read_loop.induct)
    case (1 s acc)
    show ?case
    proof (cases "getline s")
      case None
      then have "s = []" by (simp add: getline_def split: if_splits)
      with assms(1) show ?thesis by simp
    next
      case (Some p)
      obtain l s' where p: "p = (l, s')" by (cases p)
      from "1.IH" [OF Some p [symmetric]] have "P s'" .
      with assms(2) Some p show ?thesis by blast
    qed
  qed
  then show ?thesis .
qed

lemma lines_of_no_newline: "l \<in> set (lines_of s) \<Longrightarrow> CHR ''\<newline>'' \<notin> set l"
proof (induction s rule: lines_of_induct)
  case Nil
  then show ?case by simp
next
  case (line s l' s')
  then show ?case
    using getline_cases [OF line.hyps] by (auto simp: lines_of_getline [OF line.hyps])
qed

lemma write_lines_Nil [simp]: "write_lines [] = []"
  by (simp add: write_lines_def)

lemma write_lines_Cons [simp]: "write_lines (l # ls) = l @ CHR ''\<newline>'' # write_lines ls"
  by (simp add: write_lines_def)

lemma write_lines_append [simp]: "write_lines (xs @ ys) = write_lines xs @ write_lines ys"
  by (simp add: write_lines_def)

lemma write_loop_lines: "File_write_loop ls out = out @ write_lines ls"
  unfolding File_write_loop_def
  by (induction ls arbitrary: out) simp_all

lemma lines_of_write_lines_append:
  "\<forall>l\<in>set ls. CHR ''\<newline>'' \<notin> set l \<Longrightarrow> lines_of (write_lines ls @ s) = ls @ lines_of s"
  by (induction ls) (simp_all add: lines_of_line)

lemma lines_of_write_lines:
  "\<forall>l\<in>set ls. CHR ''\<newline>'' \<notin> set l \<Longrightarrow> lines_of (write_lines ls) = ls"
  using lines_of_write_lines_append [of ls "[]"] by simp

lemma closed_text_Some: "closed_text (Some s) = (s = [] \<or> last s = CHR ''\<newline>'')"
  by (simp add: closed_text_def)

lemma write_lines_lines_of:
  "s = [] \<or> last s = CHR ''\<newline>'' \<Longrightarrow> write_lines (lines_of s) = s"
proof (induction s rule: lines_of_induct)
  case Nil
  then show ?case by simp
next
  case (line s l s')
  from getline_cases [OF line.hyps] have nl: "CHR ''\<newline>'' \<notin> set l"
    and alt: "s = l @ CHR ''\<newline>'' # s' \<or> (s = l \<and> s' = [] \<and> l \<noteq> [])"
    by simp_all
  from alt line.prems nl have s: "s = l @ CHR ''\<newline>'' # s'"
    by (auto dest: last_in_set)
  with line.prems have "s' = [] \<or> last s' = CHR ''\<newline>''"
    by (auto split: if_splits)
  with line.IH have "write_lines (lines_of s') = s'" .
  moreover have "lines_of s = l # lines_of s'"
    by (rule lines_of_getline [OF line.hyps])
  ultimately show ?case
    using s by simp
qed

lemma lines_of_append:
  assumes "s = [] \<or> last s = CHR ''\<newline>''"
  shows "lines_of (s @ t) = lines_of s @ lines_of t"
proof -
  have "lines_of (write_lines (lines_of s) @ t) = lines_of s @ lines_of t"
    by (rule lines_of_write_lines_append) (simp add: lines_of_no_newline)
  then show ?thesis
    using write_lines_lines_of [OF assms] by simp
qed

lemma lines_of_rewrite: "lines_of (write_lines (lines_of s)) = lines_of s"
  by (rule lines_of_write_lines) (simp add: lines_of_no_newline)

lemma write_lines_closed: "closed_text (Some (write_lines ls))"
  by (induction ls rule: rev_induct) (simp_all add: closed_text_def)

lemma find_comma:
  "find_char line (CHR '','') =
     (if CHR '','' \<in> set line then Some (length (line_description line)) else None)"
  by (simp add: find_char_def line_description_def)

lemma length_description_le: "length (line_description line) \<le> length line"
  by (simp add: line_description_def length_takeWhile_le)

lemma length_description_less:
  "CHR '','' \<in> set line \<Longrightarrow> length (line_description line) < length line"
  unfolding line_description_def
  by (induction line) auto

lemma take_description: "take (length (line_description line)) line = line_description line"
  unfolding line_description_def by (induction line) auto

lemma description_no_comma: "CHR '','' \<notin> set line \<Longrightarrow> line_description line = line"
  unfolding line_description_def by (induction line) auto

lemma take_Suc_description:
  "CHR '','' \<in> set line \<Longrightarrow>
     take (Suc (length (line_description line))) line = line_description line @ '',''"
  unfolding line_description_def by (induction line) auto

lemma getTasks_line: "File_getTasks_line line = Inr (display_line line)"
proof (cases "CHR '','' \<in> set line")
  case True
  then show ?thesis
    using length_description_less [OF True]
    by (simp add: File_getTasks_line_def find_comma substr_def plus_one_def display_line_def
        line_flag_def take_description)
next
  case False
  then show ?thesis
    by (simp add: File_getTasks_line_def find_comma substr_def plus_one_def display_line_def
        line_flag_def description_no_comma)
qed

lemma getTasks_loop:
  "File_getTasks_loop s acc = Inr (acc @ map display_line (lines_of s))"
proof (induction s acc rule: File_getTasks_loop.induct)
  case (1 s acc)
  show ?case
  proof (cases "getline s")
    case None
    then have "s = []" by (simp add: getline_def split: if_splits)
    then show ?thesis by (simp add: File_getTasks_loop.simps [of "[]"])
  next
    case (Some p)
    obtain l s' where p: "p = (l, s')" by (cases p)
    have "File_getTasks_loop s acc = File_getTasks_loop s' (acc @ [display_line l])"
      using Some p by (simp add: File_getTasks_loop.simps [of s] getTasks_line)
    also have "\<dots> = Inr ((acc @ [display_line l]) @ map display_line (lines_of s'))"
      by (rule "1.IH" [OF Some p [symmetric] getTasks_line])
    finally have "File_getTasks_loop s acc =
        Inr ((acc @ [display_line l]) @ map display_line (lines_of s'))" .
    moreover have "lines_of s = l # lines_of s'"
      using Some p by (simp add: lines_of_getline)
    ultimately show ?thesis by simp
  qed
qed

lemma getTasks_lines: "File_getTasks r fs = Inr (map display_line (File_lines r fs))"
  by (simp add: File_getTasks_def File_lines_def getTasks_loop split: option.splits)

lemma marked_prefix:
  "substr line (Some 0) (plus_one (find_char line (CHR '',''))) =
     Inr (if CHR '','' \<in> set line then line_description line @ '','' else [])"
  by (simp add: substr_def plus_one_def find_comma take_Suc_description)

lemma markTaskCompleted_lines:
  "File_markTaskCompleted r index fs =
     Inr (if may_write (fs (filePath r))
          then with_text fs (filePath r) (write_lines (new_lines index (File_lines r fs)))
          else fs)"
proof -
  let ?ls = "File_lines r fs"
  have ls: "(case ifstream fs (filePath r) of None \<Rightarrow> [] | Some body \<Rightarrow> File_read_loop body []) = ?ls"
    by (simp add: File_lines_def read_loop_lines split: option.splits)
  show ?thesis
  proof (cases "index \<ge> 0 \<and> nat index < length ?ls")
    case True
    then show ?thesis
      unfolding File_markTaskCompleted_def ls
      by (simp add: Let_def marked_prefix marked_line_def new_lines_def ofstream_trunc_def write_loop_lines)
  next
    case False
    then have v: "(index \<ge> 0 \<and> nat index < length ?ls) = False"
      by simp
    show ?thesis
      unfolding File_markTaskCompleted_def ls
      by (simp add: v Let_def new_lines_def ofstream_trunc_def write_loop_lines)
  qed
qed

subsection \<open>Files after a write\<close>

lemma lines_with_text:
  "File_lines r (with_text fs (filePath r) body) =
     (if may_read (fs (filePath r)) then lines_of body else [])"
  by (simp add: File_lines_def ifstream_def with_text_def)

lemma contents_with_text [simp]: "contents (with_text fs p body p) = Some body"
  by (simp add: with_text_def)

lemma may_read_with_text [simp]: "may_read (with_text fs p body q) = may_read (fs q)"
  by (simp add: with_text_def)

lemma may_write_with_text [simp]: "may_write (with_text fs p body q) = may_write (fs q)"
  by (simp add: with_text_def)

lemma with_text_twice [simp]: "with_text (with_text fs p a) p b = with_text fs p b"
  by (simp add: with_text_def)

lemma lines_unreadable:
  "contents (fs (filePath r)) = None \<or> \<not> may_read (fs (filePath r)) \<Longrightarrow> File_lines r fs = []"
  by (auto simp: File_lines_def ifstream_def split: option.splits)

lemma lines_readable:
  "contents (fs (filePath r)) = Some body \<Longrightarrow> may_read (fs (filePath r)) \<Longrightarrow>
     File_lines r fs = lines_of body"
  by (simp add: File_lines_def ifstream_def)

lemma File_lines_no_newline: "l \<in> set (File_lines r fs) \<Longrightarrow> CHR ''\<newline>'' \<notin> set l"
  by (auto simp: File_lines_def lines_of_no_newline split: option.splits)

subsection \<open>The line written by markTaskCompleted\<close>

lemma marked_no_newline: "CHR ''\<newline>'' \<notin> set l \<Longrightarrow> CHR ''\<newline>'' \<notin> set (marked_line l)"
  unfolding marked_line_def line_description_def
  by (auto dest: set_takeWhileD)

lemma description_append_comma:
  "CHR '','' \<notin> set d \<Longrightarrow> line_description (d @ CHR '','' # s) = d"
  unfolding line_description_def by (induction d) auto

lemma description_has_no_comma: "CHR '','' \<notin> set (line_description l)"
  unfolding line_description_def by (auto dest: set_takeWhileD)

lemma flag_append_comma:
  "CHR '','' \<notin> set d \<Longrightarrow> line_flag (d @ CHR '','' # s) = s"
  by (simp add: line_flag_def description_append_comma)

lemma display_append_comma:
  "CHR '','' \<notin> set d \<Longrightarrow>
     display_line (d @ CHR '','' # s) = (if s = ''true'' then ''[X] '' else ''[ ] '') @ d"
  by (simp add: display_line_def description_append_comma flag_append_comma)

lemma marked_append_comma:
  "CHR '','' \<notin> set d \<Longrightarrow> marked_line (d @ CHR '','' # s) = d @ '',true''"
  by (simp add: marked_line_def description_append_comma)

lemma display_marked_comma:
  "CHR '','' \<in> set l \<Longrightarrow> display_line (marked_line l) = ''[X] '' @ line_description l"
  using display_append_comma [OF description_has_no_comma, of l "''true''"]
  by (simp add: marked_line_def)

lemma display_marked_plain:
  "CHR '','' \<notin> set l \<Longrightarrow> display_line (marked_line l) = ''[X] true''"
  by (simp add: marked_line_def display_line_def line_flag_def line_description_def)

lemma display_marked_completed: "take 4 (display_line (marked_line l)) = ''[X] ''"
  by (cases "CHR '','' \<in> set l") (simp_all add: display_marked_comma display_marked_plain)

lemma drop_display: "drop 4 (display_line l) = line_description l"
  by (simp add: display_line_def)

lemma marked_marked: "marked_line (marked_line l) = marked_line l"
proof (cases "CHR '','' \<in> set l")
  case True
  then show ?thesis
    using marked_append_comma [OF description_has_no_comma, of l "''true''"]
    by (simp add: marked_line_def)
next
  case False
  then show ?thesis
    by (simp add: marked_line_def line_description_def)
qed

lemma length_new_lines [simp]: "length (new_lines index ls) = length ls"
  by (simp add: new_lines_def)

lemma new_lines_twice: "new_lines index (new_lines index ls) = new_lines index ls"
  by (simp add: new_lines_def marked_marked)

lemma new_lines_valid:
  "0 \<le> index \<Longrightarrow> nat index < length ls \<Longrightarrow>
     new_lines index ls = ls[nat index := marked_line (ls ! nat index)]"
  by (simp add: new_lines_def)

lemma new_lines_other:
  "\<not> (0 \<le> index \<and> nat index < length ls) \<Longrightarrow> new_lines index ls = ls"
  by (auto simp: new_lines_def)

lemma new_lines_invalid:
  "index < 0 \<or> int (length ls) \<le> index \<Longrightarrow> new_lines index ls = ls"
  by (auto simp: new_lines_def)

lemma new_lines_Nil [simp]: "new_lines index [] = []"
  by (simp add: new_lines_def)

lemma new_lines_no_newline:
  assumes "\<forall>l\<in>set ls. CHR ''\<newline>'' \<notin> set l"
  shows "\<forall>l\<in>set (new_lines index ls). CHR ''\<newline>'' \<notin> set l"
proof (cases "index \<ge> 0 \<and> nat index < length ls")
  case True
  then have "CHR ''\<newline>'' \<notin> set (marked_line (ls ! nat index))"
    using assms by (simp add: marked_no_newline)
  with assms True show ?thesis
    by (auto simp: new_lines_def dest!: set_update_subset_insert [THEN subsetD])
next
  case False
  with assms show ?thesis by (simp add: new_lines_other)
qed

lemma lines_of_new_lines:
  "lines_of (write_lines (new_lines index (File_lines r fs))) = new_lines index (File_lines r fs)"
  by (rule lines_of_write_lines) (rule new_lines_no_newline, simp add: File_lines_no_newline)

lemma lines_after_mark:
  assumes "File_markTaskCompleted r index fs = Inr fs'"
  shows "File_lines r fs' =
    (if may_write (fs (filePath r)) then new_lines index (File_lines r fs) else File_lines r fs)"
proof (cases "may_write (fs (filePath r))")
  case True
  with assms have fs': "fs' = with_text fs (filePath r) (write_lines (new_lines index (File_lines r fs)))"
    by (simp add: markTaskCompleted_lines)
  show ?thesis
  proof (cases "may_read (fs (filePath r))")
    case True
    with \<open>may_write (fs (filePath r))\<close> show ?thesis
      unfolding fs' by (simp add: lines_with_text lines_of_new_lines)
  next
    case False
    then have "File_lines r fs = []"
      by (simp add: lines_unreadable)
    with False \<open>may_write (fs (filePath r))\<close> show ?thesis
      unfolding fs' by (simp add: lines_with_text)
  qed
next
  case False
  with assms have "fs' = fs"
    by (simp add: markTaskCompleted_lines)
  with False show ?thesis by simp
qed

lemma mark_returns: "\<exists>fs'. File_markTaskCompleted r index fs = Inr fs'"
  by (simp add: markTaskCompleted_lines)

lemma call_returns: "\<exists>fs'. File_call r c fs = Inr fs'"
  by (cases c) (simp_all add: getTasks_lines mark_returns)

lemma run_returns: "\<exists>fs'. File_run r cs fs = Inr fs'"
proof (induction cs arbitrary: fs)
  case Nil
  show ?case by simp
next
  case (Cons c cs)
  obtain fs1 where "File_call r c fs = Inr fs1"
    using call_returns by blast
  with Cons.IH [of fs1] show ?case by simp
qed

lemma spec_display_comma:
  assumes "CHR '','' \<in> set line"
  shows "display_line line = spec_display line"
proof -
  have "dropWhile (\<lambda>c. c \<noteq> CHR '','') line = drop (length (takeWhile (\<lambda>c. c \<noteq> CHR '','') line)) line"
    by (rule dropWhile_eq_drop)
  then have "spec_after_comma line = line_flag line"
    using assms by (simp add: spec_after_comma_def line_flag_def line_description_def)
  then show ?thesis
    by (simp add: display_line_def spec_display_def spec_description_def line_description_def)
qed

lemma addTask_contents:
  "may_write (fs (filePath r)) \<Longrightarrow>
     File_addTask r task fs =
       with_text fs (filePath r)
         ((case contents (fs (filePath r)) of None \<Rightarrow> [] | Some body \<Rightarrow> body) @ task @ '',false\<newline>'')"
  by (simp add: File_addTask_def ofstream_app_def)

lemma addTask_unwritable: "\<not> may_write (fs (filePath r)) \<Longrightarrow> File_addTask r task fs = fs"
  by (simp add: File_addTask_def ofstream_app_def)

lemma lines_of_one_line:
  "CHR ''\<newline>'' \<notin> set l \<Longrightarrow> lines_of (l @ ''\<newline>'') = [l]"
  using lines_of_line [of l "[]"] by simp

lemma lines_of_appended_line:
  assumes "closed_text c" and "CHR ''\<newline>'' \<notin> set task"
  shows "lines_of (text_of c @ task @ '',false\<newline>'') = lines_of (text_of c) @ [task @ '',false'']"
proof -
  have old: "text_of c = [] \<or> last (text_of c) = CHR ''\<newline>''"
    using assms(1) by (simp add: closed_text_def text_of_def split: option.splits)
  have "CHR ''\<newline>'' \<notin> set (task @ '',false'')"
    using assms(2) by simp
  then have one: "lines_of ((task @ '',false'') @ ''\<newline>'') = [task @ '',false'']"
    by (rule lines_of_one_line)
  have "lines_of (text_of c @ task @ '',false\<newline>'') =
      lines_of (text_of c) @ lines_of (task @ '',false\<newline>'')"
    by (rule lines_of_append [OF old])
  then show ?thesis
    using one by simp
qed

lemma InMemory_getTasks_show: "InMemory_getTasks m = map show_task (tasks m)"
  by (simp add: InMemory_getTasks_def show_task_def)

lemma drop_show_task: "drop 4 (show_task t) = description t"
  by (simp add: show_task_def)

lemma show_task_completed: "show_task (t\<lparr>completed := True\<rparr>) = ''[X] '' @ description t"
  by (simp add: show_task_def)

lemma InMemory_mark_valid:
  assumes "0 \<le> index" and "nat index < length (tasks m)"
  shows "InMemory_getTasks (InMemory_markTaskCompleted index m) =
    (InMemory_getTasks m)[nat index := ''[X] '' @ drop 4 (InMemory_getTasks m ! nat index)]"
proof -
  have "InMemory_getTasks (InMemory_markTaskCompleted index m) =
      map show_task ((tasks m)[nat index := (tasks m ! nat index)\<lparr>completed := True\<rparr>])"
    using assms by (simp add: InMemory_markTaskCompleted_def InMemory_getTasks_show)
  also have "\<dots> = (map show_task (tasks m))[nat index := ''[X] '' @ description (tasks m ! nat index)]"
    by (simp add: map_update show_task_completed)
  finally show ?thesis
    using assms by (simp add: InMemory_getTasks_show drop_show_task)
qed

lemma File_mark_valid:
  assumes g: "File_getTasks r fs = Inr ts"
    and v: "0 \<le> index" "nat index < length ts"
    and w: "may_write (fs (filePath r))"
    and c: "CHR '','' \<in> set (File_lines r fs ! nat index)"
  shows "\<exists>fs'. File_markTaskCompleted r index fs = Inr fs' \<and>
    File_getTasks r fs' = Inr (ts[nat index := ''[X] '' @ drop 4 (ts ! nat index)])"
proof -
  let ?ls = "File_lines r fs"
  from g have ts: "ts = map display_line ?ls"
    by (simp add: getTasks_lines)
  with v have len: "nat index < length ?ls"
    by simp
  obtain fs' where fs': "File_markTaskCompleted r index fs = Inr fs'"
    using mark_returns by blast
  have "File_lines r fs' = ?ls[nat index := marked_line (?ls ! nat index)]"
    using lines_after_mark [OF fs'] w v(1) len by (simp add: new_lines_valid)
  then have "File_getTasks r fs' =
      Inr ((map display_line ?ls)[nat index := display_line (marked_line (?ls ! nat index))])"
    by (simp add: getTasks_lines map_update)
  also have "display_line (marked_line (?ls ! nat index)) = ''[X] '' @ drop 4 (ts ! nat index)"
    using c len by (simp add: display_marked_comma drop_display ts)
  finally show ?thesis
    using fs' ts by blast
qed

subsection \<open>Completed entries stay completed\<close>

lemma take_show_task: "(take 4 (show_task t) = ''[X] '') = completed t"
  by (simp add: show_task_def)

lemma shown_completed_tasks:
  "shown_completed (InMemory_getTasks m) j = (j < length (tasks m) \<and> completed (tasks m ! j))"
  by (auto simp: shown_completed_def InMemory_getTasks_show take_show_task)

lemma InMemory_call_keeps:
  assumes "shown_completed (InMemory_getTasks m) j"
  shows "shown_completed (InMemory_getTasks (InMemory_call c m)) j"
proof (cases c)
  case (AddTask task)
  with assms show ?thesis
    by (simp add: shown_completed_tasks InMemory_addTask_def nth_append)
next
  case GetTasks
  with assms show ?thesis by simp
next
  case (MarkTaskCompleted index)
  show ?thesis
  proof (cases "index \<ge> 0 \<and> nat index < length (tasks m)")
    case True
    with assms show ?thesis
      unfolding MarkTaskCompleted
      by (cases "j = nat index")
        (simp_all add: shown_completed_tasks InMemory_markTaskCompleted_def)
  next
    case False
    then have "InMemory_markTaskCompleted index m = m"
      by (auto simp: InMemory_markTaskCompleted_def)
    with assms show ?thesis
      unfolding MarkTaskCompleted by simp
  qed
qed

lemma InMemory_run_keeps:
  "shown_completed (InMemory_getTasks m) j \<Longrightarrow>
     shown_completed (InMemory_getTasks (InMemory_run cs m)) j"
  by (induction cs arbitrary: m) (simp_all add: InMemory_call_keeps)

lemma shown_completed_lines:
  "shown_completed (map display_line ls) j =
     (j < length ls \<and> take 4 (display_line (ls ! j)) = ''[X] '')"
  by (auto simp: shown_completed_def)

lemma shown_completed_append: "shown_completed xs j \<Longrightarrow> shown_completed (xs @ ys) j"
  by (simp add: shown_completed_def nth_append)

lemma lines_after_addTask_closed:
  assumes "may_write (fs (filePath r))" and "may_read (fs (filePath r))"
    and "closed_text (contents (fs (filePath r)))"
  shows "File_lines r (File_addTask r task fs) =
    File_lines r fs @ lines_of (task @ '',false\<newline>'')"
proof -
  let ?old = "case contents (fs (filePath r)) of None \<Rightarrow> [] | Some body \<Rightarrow> body"
  have old: "?old = [] \<or> last ?old = CHR ''\<newline>''"
    using assms(3) by (simp add: closed_text_def split: option.splits)
  have "File_lines r (File_addTask r task fs) = lines_of (?old @ task @ '',false\<newline>'')"
    using assms(1,2) by (simp add: addTask_contents lines_with_text)
  also have "\<dots> = lines_of ?old @ lines_of (task @ '',false\<newline>'')"
    by (rule lines_of_append [OF old])
  also have "lines_of ?old = File_lines r fs"
    using assms(2) by (simp add: File_lines_def ifstream_def split: option.splits)
  finally show ?thesis .
qed

lemma closed_after_addTask:
  "closed_text (contents (fs (filePath r))) \<Longrightarrow>
     closed_text (contents (File_addTask r task fs (filePath r)))"
  by (cases "may_write (fs (filePath r))")
    (simp_all add: addTask_contents addTask_unwritable closed_text_def)

lemma closed_after_mark:
  assumes "File_markTaskCompleted r index fs = Inr fs'"
    and "closed_text (contents (fs (filePath r)))"
  shows "closed_text (contents (fs' (filePath r)))"
proof (cases "may_write (fs (filePath r))")
  case True
  with assms(1) show ?thesis
    by (auto simp: markTaskCompleted_lines write_lines_closed)
next
  case False
  with assms show ?thesis
    by (auto simp: markTaskCompleted_lines)
qed

lemma File_call_keeps:
  assumes cl: "closed_text (contents (fs (filePath r)))"
    and sh: "shown_completed (map display_line (File_lines r fs)) j"
  shows "\<exists>fs'. File_call r c fs = Inr fs' \<and> closed_text (contents (fs' (filePath r))) \<and>
    shown_completed (map display_line (File_lines r fs')) j"
proof (cases c)
  case (AddTask task)
  have "shown_completed (map display_line (File_lines r (File_addTask r task fs))) j"
  proof (cases "may_write (fs (filePath r))")
    case True
    from sh have "File_lines r fs \<noteq> []"
      by (auto simp: shown_completed_def)
    then have "may_read (fs (filePath r))"
      using lines_unreadable [of fs r] by blast
    with True cl have "File_lines r (File_addTask r task fs) =
        File_lines r fs @ lines_of (task @ '',false\<newline>'')"
      by (intro lines_after_addTask_closed)
    with sh show ?thesis
      by (simp add: shown_completed_append)
  next
    case False
    with sh show ?thesis
      by (simp add: addTask_unwritable)
  qed
  with cl AddTask show ?thesis
    by (simp add: closed_after_addTask)
next
  case GetTasks
  with cl sh show ?thesis
    by (simp add: getTasks_lines)
next
  case (MarkTaskCompleted index)
  obtain fs' where fs': "File_markTaskCompleted r index fs = Inr fs'"
    using mark_returns by blast
  let ?ls = "File_lines r fs"
  have "shown_completed (map display_line (File_lines r fs')) j"
  proof (cases "may_write (fs (filePath r)) \<and> 0 \<le> index \<and> nat index < length ?ls")
    case True
    then have "File_lines r fs' = ?ls[nat index := marked_line (?ls ! nat index)]"
      using lines_after_mark [OF fs'] by (simp add: new_lines_valid)
    with sh True show ?thesis
      by (cases "j = nat index")
        (simp_all add: shown_completed_lines display_marked_completed)
  next
    case False
    then have "File_lines r fs' = ?ls"
      using lines_after_mark [OF fs'] by (auto simp: new_lines_other)
    with sh show ?thesis by simp
  qed
  with fs' closed_after_mark [OF fs' cl] MarkTaskCompleted show ?thesis
    by simp
qed

lemma File_run_keeps:
  assumes "closed_text (contents (fs (filePath r)))"
    and "shown_completed (map display_line (File_lines r fs)) j"
  shows "\<exists>fs'. File_run r cs fs = Inr fs' \<and>
    shown_completed (map display_line (File_lines r fs')) j"
  using assms
proof (induction cs arbitrary: fs)
  case Nil
  then show ?case by simp
next
  case (Cons c cs)
  from File_call_keeps [of fs r j c] Cons.prems
  obtain fs1 where "File_call r c fs = Inr fs1"
    and "closed_text (contents (fs1 (filePath r)))"
    and "shown_completed (map display_line (File_lines r fs1)) j"
    by blast
  with Cons.IH [of fs1] show ?case
    by simp
qed

lemma File_run_closed:
  assumes "closed_text (contents (fs (filePath r)))" and "File_run r cs fs = Inr fs'"
  shows "closed_text (contents (fs' (filePath r)))"
  using assms
proof (induction cs arbitrary: fs)
  case Nil
  then show ?case by simp
next
  case (Cons c cs)
  obtain fs1 where c: "File_call r c fs = Inr fs1"
    using call_returns by blast
  have "closed_text (contents (fs1 (filePath r)))"
  proof (cases c)
    case (AddTask task)
    with c Cons.prems(1) show ?thesis
      by (auto simp: closed_after_addTask)
  next
    case GetTasks
    with c Cons.prems(1) show ?thesis
      by (simp add: getTasks_lines)
  next
    case (MarkTaskCompleted index)
    with c have "File_markTaskCompleted r index fs = Inr fs1"
      by simp
    then show ?thesis
      using Cons.prems(1) by (rule closed_after_mark)
  qed
  moreover from c Cons.prems(2) have "File_run r cs fs1 = Inr fs'"
    by simp
  ultimately show ?case
    by (rule Cons.IH)
qed

subsection \<open>The file of a repository and the vector of the other\<close>

lemma encode_eq:
  "encode t = description t @ CHR '','' # (if completed t then ''true'' else ''false'')"
  by (simp add: encode_def)

lemma encode_no_newline: "plain (description t) \<Longrightarrow> CHR ''\<newline>'' \<notin> set (encode t)"
  by (simp add: encode_def plain_def)

lemma display_encode: "plain (description t) \<Longrightarrow> display_line (encode t) = show_task t"
  by (simp add: encode_eq display_append_comma plain_def show_task_def)

lemma marked_encode:
  "plain (description t) \<Longrightarrow> marked_line (encode t) = encode (t\<lparr>completed := True\<rparr>)"
  by (simp add: encode_eq marked_append_comma plain_def)

lemma lines_of_encoded:
  "list_all (\<lambda>t. plain (description t)) ts \<Longrightarrow> lines_of (write_lines (map encode ts)) = map encode ts"
  by (rule lines_of_write_lines) (auto simp: list_all_iff encode_no_newline)

lemma holds_lines:
  assumes "holds r fs m"
  shows "File_lines r fs = map encode (tasks m)"
proof -
  from assms have rd: "may_read (fs (filePath r))"
    and pl: "list_all (\<lambda>t. plain (description t)) (tasks m)"
    and alt: "contents (fs (filePath r)) = Some (write_lines (map encode (tasks m))) \<or>
       contents (fs (filePath r)) = None \<and> tasks m = []"
    by (simp_all add: holds_def)
  from alt show ?thesis
  proof
    assume "contents (fs (filePath r)) = Some (write_lines (map encode (tasks m)))"
    then show ?thesis
      using rd by (simp add: lines_readable lines_of_encoded [OF pl])
  next
    assume "contents (fs (filePath r)) = None \<and> tasks m = []"
    then show ?thesis
      by (simp add: lines_unreadable)
  qed
qed

lemma holds_getTasks:
  assumes "holds r fs m"
  shows "File_getTasks r fs = Inr (InMemory_getTasks m)"
proof -
  from assms have "list_all (\<lambda>t. plain (description t)) (tasks m)"
    by (simp add: holds_def)
  then have "map display_line (map encode (tasks m)) = map show_task (tasks m)"
    by (simp add: list_all_iff display_encode)
  then show ?thesis
    by (simp add: getTasks_lines holds_lines [OF assms] InMemory_getTasks_show)
qed

lemma holds_old_text:
  assumes "holds r fs m"
  shows "(case contents (fs (filePath r)) of None \<Rightarrow> [] | Some body \<Rightarrow> body) =
    write_lines (map encode (tasks m))"
  using assms by (auto simp: holds_def)

lemma holds_addTask:
  assumes h: "holds r fs m" and p: "plain task"
  shows "holds r (File_addTask r task fs) (InMemory_addTask task m)"
proof -
  from h have w: "may_write (fs (filePath r))"
    by (simp add: holds_def)
  have "encode \<lparr>description = task, completed = False\<rparr> @ ''\<newline>'' = task @ '',false\<newline>''"
    by (simp add: encode_def)
  then have "contents (File_addTask r task fs (filePath r)) =
      Some (write_lines (map encode (tasks m @ [\<lparr>description = task, completed = False\<rparr>])))"
    using holds_old_text [OF h] w by (simp add: addTask_contents write_lines_def)
  with h p w show ?thesis
    by (simp add: holds_def InMemory_addTask_def addTask_contents)
qed

lemma new_lines_encoded:
  assumes "list_all (\<lambda>t. plain (description t)) (tasks m)"
  shows "new_lines index (map encode (tasks m)) =
    map encode (tasks (InMemory_markTaskCompleted index m))"
proof (cases "index \<ge> 0 \<and> nat index < length (tasks m)")
  case True
  then have "plain (description (tasks m ! nat index))"
    using assms by (simp add: list_all_length)
  with True show ?thesis
    by (simp add: new_lines_valid InMemory_markTaskCompleted_def map_update marked_encode)
next
  case False
  then have "InMemory_markTaskCompleted index m = m"
    by (auto simp: InMemory_markTaskCompleted_def)
  with False show ?thesis
    by (simp add: new_lines_other)
qed

lemma plain_after_mark:
  assumes "list_all (\<lambda>t. plain (description t)) (tasks m)"
  shows "list_all (\<lambda>t. plain (description t)) (tasks (InMemory_markTaskCompleted index m))"
proof (cases "index \<ge> 0 \<and> nat index < length (tasks m)")
  case True
  with assms show ?thesis
    by (simp add: InMemory_markTaskCompleted_def list_all_length nth_list_update)
next
  case False
  then have "InMemory_markTaskCompleted index m = m"
    by (auto simp: InMemory_markTaskCompleted_def)
  with assms show ?thesis by simp
qed

lemma holds_mark:
  assumes h: "holds r fs m"
  shows "\<exists>fs'. File_markTaskCompleted r index fs = Inr fs' \<and>
    holds r fs' (InMemory_markTaskCompleted index m)"
proof -
  from h have w: "may_write (fs (filePath r))"
    and pl: "list_all (\<lambda>t. plain (description t)) (tasks m)"
    by (simp_all add: holds_def)
  let ?fs' = "with_text fs (filePath r)
    (write_lines (map encode (tasks (InMemory_markTaskCompleted index m))))"
  have "File_markTaskCompleted r index fs = Inr ?fs'"
    using w by (simp add: markTaskCompleted_lines holds_lines [OF h] new_lines_encoded [OF pl])
  moreover have "holds r ?fs' (InMemory_markTaskCompleted index m)"
    using h plain_after_mark [OF pl] by (simp add: holds_def)
  ultimately show ?thesis by blast
qed

lemma holds_call:
  assumes "holds r fs m" and "plain_call c"
  shows "\<exists>fs'. File_call r c fs = Inr fs' \<and> holds r fs' (InMemory_call c m)"
proof (cases c)
  case (AddTask task)
  with assms show ?thesis
    by (simp add: holds_addTask)
next
  case GetTasks
  with assms show ?thesis
    by (simp add: getTasks_lines)
next
  case (MarkTaskCompleted index)
  with holds_mark [OF assms(1)] show ?thesis
    by simp
qed

lemma holds_run:
  assumes "holds r fs m" and "list_all plain_call cs"
  shows "\<exists>fs'. File_run r cs fs = Inr fs' \<and> holds r fs' (InMemory_run cs m)"
  using assms
proof (induction cs arbitrary: fs m)
  case Nil
  then show ?case by simp
next
  case (Cons c cs)
  then have "plain_call c" and rest: "list_all plain_call cs"
    by simp_all
  with holds_call [OF Cons.prems(1)]
  obtain fs1 where c: "File_call r c fs = Inr fs1" and h: "holds r fs1 (InMemory_call c m)"
    by blast
  from Cons.IH [OF h rest] c show ?case
    by simp
qed

lemma holds_result:
  assumes "holds r fs m" and "list_all plain_call cs"
  shows "File_result r cs fs = Inr (InMemory_result cs m)"
proof -
  from holds_run [OF assms] obtain fs' where "File_run r cs fs = Inr fs'"
    and "holds r fs' (InMemory_run cs m)"
    by blast
  then show ?thesis
    by (simp add: File_result_def InMemory_result_def holds_getTasks)
qed

lemma holds_new:
  assumes "may_read (fs (filePath r))" and "may_write (fs (filePath r))"
    and "contents (fs (filePath r)) = None \<or> contents (fs (filePath r)) = Some []"
  shows "holds r fs InMemory_new"
  using assms by (auto simp: holds_def InMemory_new_def)

lemma InMemory_addTasks:
  "tasks (InMemory_run (map AddTask ds) m) =
     tasks m @ map (\<lambda>d. \<lparr>description = d, completed = False\<rparr>) ds"
  by (induction ds arbitrary: m) (simp_all add: InMemory_addTask_def)

lemma InMemory_result_addTasks:
  "InMemory_result (map AddTask ds) InMemory_new = map (\<lambda>d. ''[ ] '' @ d) ds"
  by (simp add: InMemory_result_def InMemory_getTasks_def InMemory_addTasks InMemory_new_def comp_def)

section \<open>The claims\<close>

subsection \<open>Claim C1\<close>

text \<open>
  Claim C1, amended. After any sequence of \<open>addTask\<close> calls on an empty in-memory
  repository, \<open>getTasks\<close> returns one string per task, in the order of the calls, each
  \<open>[ ]\<close>, a blank and the description added. The same holds for the file repository,
  from a missing or empty file on a path that opens for reading and for writing, when
  no description has a comma or a newline in it.
\<close>

theorem C1_added_tasks_listed:
  "InMemory_result (map AddTask ds) InMemory_new = map (\<lambda>d. ''[ ] '' @ d) ds \<and>
   (may_read (fs (filePath r)) \<and> may_write (fs (filePath r)) \<and>
    (contents (fs (filePath r)) = None \<or> contents (fs (filePath r)) = Some []) \<and>
    (\<forall>d\<in>set ds. plain d) \<longrightarrow>
      File_result r (map AddTask ds) fs = Inr (map (\<lambda>d. ''[ ] '' @ d) ds))"
proof (intro conjI impI)
  show "InMemory_result (map AddTask ds) InMemory_new = map (\<lambda>d. ''[ ] '' @ d) ds"
    by (rule InMemory_result_addTasks)
next
  assume a: "may_read (fs (filePath r)) \<and> may_write (fs (filePath r)) \<and>
    (contents (fs (filePath r)) = None \<or> contents (fs (filePath r)) = Some []) \<and>
    (\<forall>d\<in>set ds. plain d)"
  then have "holds r fs InMemory_new"
    by (intro holds_new) simp_all
  moreover from a have "list_all plain_call (map AddTask ds)"
    by (simp add: list_all_iff)
  ultimately have "File_result r (map AddTask ds) fs =
      Inr (InMemory_result (map AddTask ds) InMemory_new)"
    by (rule holds_result)
  then show "File_result r (map AddTask ds) fs = Inr (map (\<lambda>d. ''[ ] '' @ d) ds)"
    by (simp add: InMemory_result_addTasks)
qed

theorem C1_added_tasks_listed_witness:
  "InMemory_result (map AddTask [''Buy milk'', '''', ''Write report'']) InMemory_new =
     [''[ ] Buy milk'', ''[ ] '', ''[ ] Write report''] \<and>
   may_read (no_files ''tasks.txt'') \<and> may_write (no_files ''tasks.txt'') \<and>
   contents (no_files ''tasks.txt'') = None \<and>
   list_all plain [''Buy milk'', '''', ''Write report''] \<and>
   File_result (File_new ''tasks.txt'') (map AddTask [''Buy milk'', '''', ''Write report'']) no_files =
     Inr [''[ ] Buy milk'', ''[ ] '', ''[ ] Write report'']"
proof -
  let ?ds = "[''Buy milk'', '''', ''Write report'']"
  have f: "may_read (no_files ''tasks.txt'')" "may_write (no_files ''tasks.txt'')"
    "contents (no_files ''tasks.txt'') = None" "filePath (File_new ''tasks.txt'') = ''tasks.txt''"
    by (simp_all add: no_files_def File_new_def)
  have p: "list_all plain ?ds"
    by code_simp
  from C1_added_tasks_listed [of ?ds no_files "File_new ''tasks.txt''"] f p show ?thesis
    by (simp add: list_all_iff)
qed

text \<open>
  The claim as it stands fails in the file repository on a description with a comma:
  the entry listed is cut at the comma.
\<close>

theorem C1_counterexample:
  "File_result (File_new ''tasks.txt'') (map AddTask [''a,b'']) no_files = Inr [''[ ] a''] \<and>
   File_result (File_new ''tasks.txt'') (map AddTask [''a,b'']) no_files \<noteq> Inr [''[ ] a,b'']"
  by code_simp

subsection \<open>Claim C2\<close>

text \<open>
  Claim C2, amended. With \<open>n\<close> entries listed and \<open>0 \<le> i < n\<close>, after
  \<open>markTaskCompleted(i)\<close> the listing is the former one with entry \<open>i\<close> replaced by
  \<open>[X]\<close>, a blank and the description it showed before (what followed its first four
  characters); every other entry is as it was. This holds for the in-memory
  repository, and for the file repository when the path opens for writing and line
  \<open>i\<close> of the file contains a comma.
\<close>

theorem C2_mark_valid_index:
  "(0 \<le> index \<and> index < int (length (InMemory_getTasks m)) \<longrightarrow>
      InMemory_getTasks (InMemory_markTaskCompleted index m) =
        (InMemory_getTasks m)[nat index := ''[X] '' @ drop 4 (InMemory_getTasks m ! nat index)]) \<and>
   (File_getTasks r fs = Inr ts \<and> 0 \<le> index \<and> index < int (length ts) \<and>
    may_write (fs (filePath r)) \<and> CHR '','' \<in> set (File_lines r fs ! nat index) \<longrightarrow>
      (\<exists>fs'. File_markTaskCompleted r index fs = Inr fs' \<and>
         File_getTasks r fs' = Inr (ts[nat index := ''[X] '' @ drop 4 (ts ! nat index)])))"
proof (intro conjI impI)
  assume "0 \<le> index \<and> index < int (length (InMemory_getTasks m))"
  then have "0 \<le> index" and "nat index < length (tasks m)"
    by (auto simp: InMemory_getTasks_def)
  then show "InMemory_getTasks (InMemory_markTaskCompleted index m) =
        (InMemory_getTasks m)[nat index := ''[X] '' @ drop 4 (InMemory_getTasks m ! nat index)]"
    by (rule InMemory_mark_valid)
next
  assume a: "File_getTasks r fs = Inr ts \<and> 0 \<le> index \<and> index < int (length ts) \<and>
    may_write (fs (filePath r)) \<and> CHR '','' \<in> set (File_lines r fs ! nat index)"
  then have "nat index < length ts"
    by auto
  with a show "\<exists>fs'. File_markTaskCompleted r index fs = Inr fs' \<and>
         File_getTasks r fs' = Inr (ts[nat index := ''[X] '' @ drop 4 (ts ! nat index)])"
    by (intro File_mark_valid) simp_all
qed

theorem C2_mark_valid_index_witness:
  "(0::int) \<le> 0 \<and>
   (0::int) < int (length (InMemory_getTasks
      (InMemory_run [AddTask ''Buy milk'', AddTask ''Write report''] InMemory_new))) \<and>
   InMemory_getTasks (InMemory_markTaskCompleted 0
      (InMemory_run [AddTask ''Buy milk'', AddTask ''Write report''] InMemory_new)) =
     [''[X] Buy milk'', ''[ ] Write report''] \<and>
   File_getTasks (File_new ''tasks.txt'')
      (File_addTask (File_new ''tasks.txt'') ''Write report''
        (File_addTask (File_new ''tasks.txt'') ''Buy milk'' no_files)) =
     Inr [''[ ] Buy milk'', ''[ ] Write report''] \<and>
   may_write (File_addTask (File_new ''tasks.txt'') ''Write report''
        (File_addTask (File_new ''tasks.txt'') ''Buy milk'' no_files) ''tasks.txt'') \<and>
   CHR '','' \<in> set (File_lines (File_new ''tasks.txt'')
      (File_addTask (File_new ''tasks.txt'') ''Write report''
        (File_addTask (File_new ''tasks.txt'') ''Buy milk'' no_files)) ! 0) \<and>
   (\<exists>fs'. File_markTaskCompleted (File_new ''tasks.txt'') 0
        (File_addTask (File_new ''tasks.txt'') ''Write report''
          (File_addTask (File_new ''tasks.txt'') ''Buy milk'' no_files)) = Inr fs' \<and>
      File_getTasks (File_new ''tasks.txt'') fs' = Inr [''[X] Buy milk'', ''[ ] Write report''])"
proof -
  let ?m = "InMemory_run [AddTask ''Buy milk'', AddTask ''Write report''] InMemory_new"
  let ?r = "File_new ''tasks.txt''"
  let ?fs = "File_addTask ?r ''Write report'' (File_addTask ?r ''Buy milk'' no_files)"
  let ?ts = "[''[ ] Buy milk'', ''[ ] Write report'']"
  have m: "InMemory_getTasks ?m = ?ts"
    by code_simp
  have f: "File_getTasks ?r ?fs = Inr ?ts"
    by code_simp
  have w: "may_write (?fs ''tasks.txt'')" "filePath ?r = ''tasks.txt''"
    by (simp_all add: File_addTask_def ofstream_app_def File_new_def no_files_def)
  have c: "CHR '','' \<in> set (File_lines ?r ?fs ! 0)"
    by code_simp
  from C2_mark_valid_index [of 0 ?m ?r ?fs ?ts] m f w c show ?thesis
    by simp
qed

text \<open>
  The claim as it stands fails in the file repository on a line without a comma. A
  description with a newline in it is stored as two lines, the first without a comma;
  marking it completed replaces that line by \<open>true\<close>, and the entry no longer shows the
  description it showed. It fails as well on a file that opens for reading and not for
  writing: the entry stays as it was.
\<close>

theorem C2_counterexample:
  "File_result (File_new ''tasks.txt'') [AddTask ''foo\<newline>bar''] no_files =
     Inr [''[ ] foo'', ''[ ] bar''] \<and>
   File_result (File_new ''tasks.txt'') [AddTask ''foo\<newline>bar'', MarkTaskCompleted 0] no_files =
     Inr [''[X] true'', ''[ ] bar''] \<and>
   File_result (File_new ''tasks.txt'') [AddTask ''foo\<newline>bar'', MarkTaskCompleted 0] no_files \<noteq>
     Inr [''[X] foo'', ''[ ] bar''] \<and>
   File_getTasks (File_new ''tasks.txt'')
       (with_text no_files_read_only ''tasks.txt'' ''Buy milk,false\<newline>'') =
     Inr [''[ ] Buy milk''] \<and>
   File_result (File_new ''tasks.txt'') [MarkTaskCompleted 0]
       (with_text no_files_read_only ''tasks.txt'' ''Buy milk,false\<newline>'') =
     Inr [''[ ] Buy milk'']"
  by code_simp

subsection \<open>Claim C3\<close>

text \<open>
  Claim C3. With \<open>n\<close> entries listed and an index below \<open>0\<close> or from \<open>n\<close> on,
  \<open>markTaskCompleted\<close> returns normally and the following \<open>getTasks\<close> gives the very
  listing it gave before the call, in both repositories (the in-memory repository is
  not changed at all).
\<close>

theorem C3_invalid_index_changes_nothing:
  "(index < 0 \<or> int (length (InMemory_getTasks m)) \<le> index \<longrightarrow>
      InMemory_markTaskCompleted index m = m \<and>
      InMemory_getTasks (InMemory_markTaskCompleted index m) = InMemory_getTasks m) \<and>
   (File_getTasks r fs = Inr ts \<and> (index < 0 \<or> int (length ts) \<le> index) \<longrightarrow>
      (\<exists>fs'. File_markTaskCompleted r index fs = Inr fs' \<and> File_getTasks r fs' = Inr ts))"
proof (intro conjI impI)
  assume "index < 0 \<or> int (length (InMemory_getTasks m)) \<le> index"
  then have "\<not> (index \<ge> 0 \<and> nat index < length (tasks m))"
    by (auto simp: InMemory_getTasks_def)
  then show same: "InMemory_markTaskCompleted index m = m"
    by (auto simp: InMemory_markTaskCompleted_def)
  then show "InMemory_getTasks (InMemory_markTaskCompleted index m) = InMemory_getTasks m"
    by simp
next
  assume a: "File_getTasks r fs = Inr ts \<and> (index < 0 \<or> int (length ts) \<le> index)"
  then have ts: "ts = map display_line (File_lines r fs)"
    by (simp add: getTasks_lines)
  with a have same: "new_lines index (File_lines r fs) = File_lines r fs"
    by (intro new_lines_invalid) simp
  obtain fs' where fs': "File_markTaskCompleted r index fs = Inr fs'"
    using mark_returns by blast
  have "File_lines r fs' = File_lines r fs"
    using lines_after_mark [OF fs'] same by simp
  then have "File_getTasks r fs' = Inr ts"
    by (simp add: getTasks_lines ts)
  with fs' show "\<exists>fs'. File_markTaskCompleted r index fs = Inr fs' \<and> File_getTasks r fs' = Inr ts"
    by blast
qed

theorem C3_invalid_index_changes_nothing_witness:
  "((5::int) < 0 \<or>
      int (length (InMemory_getTasks (InMemory_run [AddTask ''Buy milk'', AddTask ''Write report''] InMemory_new))) \<le> 5) \<and>
   InMemory_getTasks (InMemory_markTaskCompleted 5
      (InMemory_run [AddTask ''Buy milk'', AddTask ''Write report''] InMemory_new)) =
     [''[ ] Buy milk'', ''[ ] Write report''] \<and>
   File_getTasks (File_new ''tasks.txt'')
      (File_addTask (File_new ''tasks.txt'') ''Write report''
        (File_addTask (File_new ''tasks.txt'') ''Buy milk'' no_files)) =
     Inr [''[ ] Buy milk'', ''[ ] Write report''] \<and>
   ((5::int) < 0 \<or> int (length [''[ ] Buy milk'', ''[ ] Write report'']) \<le> 5) \<and>
   (\<exists>fs'. File_markTaskCompleted (File_new ''tasks.txt'') 5
        (File_addTask (File_new ''tasks.txt'') ''Write report''
          (File_addTask (File_new ''tasks.txt'') ''Buy milk'' no_files)) = Inr fs' \<and>
      File_getTasks (File_new ''tasks.txt'') fs' = Inr [''[ ] Buy milk'', ''[ ] Write report''])"
proof -
  let ?m = "InMemory_run [AddTask ''Buy milk'', AddTask ''Write report''] InMemory_new"
  let ?r = "File_new ''tasks.txt''"
  let ?fs = "File_addTask ?r ''Write report'' (File_addTask ?r ''Buy milk'' no_files)"
  let ?ts = "[''[ ] Buy milk'', ''[ ] Write report'']"
  have m: "InMemory_getTasks ?m = ?ts"
    by code_simp
  have f: "File_getTasks ?r ?fs = Inr ?ts"
    by code_simp
  from C3_invalid_index_changes_nothing [of 5 ?m ?r ?fs ?ts] m f show ?thesis
    by simp
qed

subsection \<open>Claim C4\<close>

text \<open>
  Claim C4. After any sequence of calls made through one file repository, which all
  return normally, a repository newly constructed on the same path gives the same
  \<open>getTasks\<close> result as the first one: a repository holds nothing but its path.
\<close>

theorem C4_fresh_instance:
  "\<exists>fs'. File_run r cs fs = Inr fs' \<and>
     File_getTasks (File_new (filePath r)) fs' = File_getTasks r fs'"
proof -
  obtain fs' where "File_run r cs fs = Inr fs'"
    using run_returns by blast
  moreover have "File_getTasks (File_new (filePath r)) fs' = File_getTasks r fs'"
    by (simp add: File_getTasks_def File_new_def)
  ultimately show ?thesis by blast
qed

theorem C4_fresh_instance_witness:
  "\<exists>fs'. File_run (File_new ''tasks.txt'') [AddTask ''Buy milk'', MarkTaskCompleted 0] no_files = Inr fs' \<and>
     File_getTasks (File_new (filePath (File_new ''tasks.txt''))) fs' =
       File_getTasks (File_new ''tasks.txt'') fs'"
  by (rule C4_fresh_instance)

subsection \<open>Claim C5\<close>

text \<open>
  Claim C5, amended. From an empty in-memory repository and from a file that is
  missing or empty, on a path that opens for reading and for writing, every sequence
  of calls whose descriptions have neither a comma nor a newline returns normally and
  leaves both repositories with the same \<open>getTasks\<close> result.
\<close>

theorem C5_same_listing:
  "may_read (fs (filePath r)) \<and> may_write (fs (filePath r)) \<and>
   (contents (fs (filePath r)) = None \<or> contents (fs (filePath r)) = Some []) \<and>
   (\<forall>c\<in>set cs. plain_call c) \<longrightarrow>
     File_result r cs fs = Inr (InMemory_result cs InMemory_new)"
proof
  assume a: "may_read (fs (filePath r)) \<and> may_write (fs (filePath r)) \<and>
   (contents (fs (filePath r)) = None \<or> contents (fs (filePath r)) = Some []) \<and>
   (\<forall>c\<in>set cs. plain_call c)"
  then have "holds r fs InMemory_new"
    by (intro holds_new) simp_all
  moreover from a have "list_all plain_call cs"
    by (simp add: list_all_iff)
  ultimately show "File_result r cs fs = Inr (InMemory_result cs InMemory_new)"
    by (rule holds_result)
qed

theorem C5_same_listing_witness:
  "may_read (no_files ''tasks.txt'') \<and> may_write (no_files ''tasks.txt'') \<and>
   contents (no_files ''tasks.txt'') = None \<and>
   list_all plain_call [AddTask ''Buy milk'', AddTask ''Write report'', MarkTaskCompleted 0,
      GetTasks, MarkTaskCompleted 5] \<and>
   InMemory_result [AddTask ''Buy milk'', AddTask ''Write report'', MarkTaskCompleted 0,
      GetTasks, MarkTaskCompleted 5] InMemory_new = [''[X] Buy milk'', ''[ ] Write report''] \<and>
   File_result (File_new ''tasks.txt'') [AddTask ''Buy milk'', AddTask ''Write report'',
      MarkTaskCompleted 0, GetTasks, MarkTaskCompleted 5] no_files =
     Inr [''[X] Buy milk'', ''[ ] Write report'']"
proof -
  let ?cs = "[AddTask ''Buy milk'', AddTask ''Write report'', MarkTaskCompleted 0,
      GetTasks, MarkTaskCompleted 5]"
  have f: "may_read (no_files ''tasks.txt'')" "may_write (no_files ''tasks.txt'')"
    "contents (no_files ''tasks.txt'') = None" "filePath (File_new ''tasks.txt'') = ''tasks.txt''"
    by (simp_all add: no_files_def File_new_def)
  have p: "list_all plain_call ?cs"
    by code_simp
  have m: "InMemory_result ?cs InMemory_new = [''[X] Buy milk'', ''[ ] Write report'']"
    by code_simp
  from C5_same_listing [of no_files "File_new ''tasks.txt''" ?cs] f p m show ?thesis
    by (simp add: list_all_iff)
qed

text \<open>
  The claim as it stands fails on a description with a comma: the file repository
  lists it cut at the comma.
\<close>

theorem C5_counterexample:
  "InMemory_result [AddTask ''a,b''] InMemory_new = [''[ ] a,b''] \<and>
   File_result (File_new ''tasks.txt'') [AddTask ''a,b''] no_files = Inr [''[ ] a'']"
  by code_simp

subsection \<open>Claim C6\<close>

text \<open>
  Claim C6, amended. When the file opens for reading, \<open>getTasks\<close> returns one entry
  per line of the file, in the order of the lines, and the entry of every line that
  contains a comma is as the specification says: the description is the substring
  before the first comma, after \<open>[X]\<close> and a blank exactly when the substring after
  the first comma is \<open>true\<close>, and after \<open>[ ]\<close> and a blank otherwise. When the path
  opens for writing, \<open>addTask\<close> appends the description, \<open>,false\<close> and a newline to
  what the file holds; if moreover the file is missing, empty or ends with a newline,
  and the description has no newline, the lines of the file are the former ones
  followed by the new line.
\<close>

theorem C6_decoding_and_append:
  "(ifstream fs (filePath r) = Some body \<longrightarrow>
      (\<exists>ts. File_getTasks r fs = Inr ts \<and> length ts = length (lines_of body) \<and>
         (\<forall>j. j < length ts \<and> CHR '','' \<in> set (lines_of body ! j) \<longrightarrow>
            ts ! j = spec_display (lines_of body ! j)))) \<and>
   (may_write (fs (filePath r)) \<longrightarrow>
      contents (File_addTask r task fs (filePath r)) =
        Some (text_of (contents (fs (filePath r))) @ task @ '',false\<newline>'')) \<and>
   (may_write (fs (filePath r)) \<and> closed_text (contents (fs (filePath r))) \<and>
    CHR ''\<newline>'' \<notin> set task \<longrightarrow>
      lines_of (text_of (contents (File_addTask r task fs (filePath r)))) =
        lines_of (text_of (contents (fs (filePath r)))) @ [task @ '',false''])"
proof (intro conjI impI)
  assume a: "ifstream fs (filePath r) = Some body"
  then have "File_lines r fs = lines_of body"
    by (simp add: File_lines_def)
  then have g: "File_getTasks r fs = Inr (map display_line (lines_of body))"
    by (simp add: getTasks_lines)
  have "map display_line (lines_of body) ! j = spec_display (lines_of body ! j)"
    if "j < length (map display_line (lines_of body)) \<and> CHR '','' \<in> set (lines_of body ! j)" for j
    using that by (simp add: spec_display_comma)
  with g show "\<exists>ts. File_getTasks r fs = Inr ts \<and> length ts = length (lines_of body) \<and>
         (\<forall>j. j < length ts \<and> CHR '','' \<in> set (lines_of body ! j) \<longrightarrow>
            ts ! j = spec_display (lines_of body ! j))"
    by (intro exI [of _ "map display_line (lines_of body)"]) simp
next
  assume "may_write (fs (filePath r))"
  then show "contents (File_addTask r task fs (filePath r)) =
        Some (text_of (contents (fs (filePath r))) @ task @ '',false\<newline>'')"
    by (simp add: addTask_contents text_of_def)
next
  assume a: "may_write (fs (filePath r)) \<and> closed_text (contents (fs (filePath r))) \<and>
    CHR ''\<newline>'' \<notin> set task"
  then have "text_of (contents (File_addTask r task fs (filePath r))) =
      text_of (contents (fs (filePath r))) @ task @ '',false\<newline>''"
    by (simp add: addTask_contents text_of_def)
  with a show "lines_of (text_of (contents (File_addTask r task fs (filePath r)))) =
        lines_of (text_of (contents (fs (filePath r)))) @ [task @ '',false'']"
    by (simp add: lines_of_appended_line)
qed

theorem C6_decoding_and_append_witness:
  "ifstream (with_text no_files ''tasks.txt'' ''foo\<newline>Buy milk,true\<newline>Write report,false\<newline>'') ''tasks.txt'' =
     Some ''foo\<newline>Buy milk,true\<newline>Write report,false\<newline>'' \<and>
   lines_of ''foo\<newline>Buy milk,true\<newline>Write report,false\<newline>'' =
     [''foo'', ''Buy milk,true'', ''Write report,false''] \<and>
   (\<exists>ts. File_getTasks (File_new ''tasks.txt'')
        (with_text no_files ''tasks.txt'' ''foo\<newline>Buy milk,true\<newline>Write report,false\<newline>'') = Inr ts \<and>
      length ts = 3 \<and> ts ! 1 = ''[X] Buy milk'' \<and> ts ! 2 = ''[ ] Write report'') \<and>
   may_write (with_text no_files ''tasks.txt'' ''foo\<newline>Buy milk,true\<newline>Write report,false\<newline>'' ''tasks.txt'') \<and>
   closed_text (contents (with_text no_files ''tasks.txt''
      ''foo\<newline>Buy milk,true\<newline>Write report,false\<newline>'' ''tasks.txt'')) \<and>
   CHR ''\<newline>'' \<notin> set ''Call Ann'' \<and>
   contents (File_addTask (File_new ''tasks.txt'') ''Call Ann''
     (with_text no_files ''tasks.txt'' ''foo\<newline>Buy milk,true\<newline>Write report,false\<newline>'') ''tasks.txt'') =
     Some ''foo\<newline>Buy milk,true\<newline>Write report,false\<newline>Call Ann,false\<newline>'' \<and>
   lines_of (text_of (contents (File_addTask (File_new ''tasks.txt'') ''Call Ann''
     (with_text no_files ''tasks.txt'' ''foo\<newline>Buy milk,true\<newline>Write report,false\<newline>'') ''tasks.txt''))) =
     [''foo'', ''Buy milk,true'', ''Write report,false'', ''Call Ann,false'']"
proof -
  let ?body = "''foo\<newline>Buy milk,true\<newline>Write report,false\<newline>''"
  let ?fs = "with_text no_files ''tasks.txt'' ?body"
  let ?r = "File_new ''tasks.txt''"
  have p: "filePath ?r = ''tasks.txt''"
    by (simp add: File_new_def)
  have i: "ifstream ?fs ''tasks.txt'' = Some ?body"
    by (simp add: ifstream_def no_files_def)
  have ls: "lines_of ?body = [''foo'', ''Buy milk,true'', ''Write report,false'']"
    by code_simp
  have sp: "spec_display ''Buy milk,true'' = ''[X] Buy milk''"
    "spec_display ''Write report,false'' = ''[ ] Write report''"
    by code_simp+
  have w: "may_write (?fs ''tasks.txt'')" "closed_text (contents (?fs ''tasks.txt''))"
    "contents (?fs ''tasks.txt'') = Some ?body" "text_of (Some ?body) = ?body"
    by (simp_all add: no_files_def closed_text_def text_of_def)
  have n: "CHR ''\<newline>'' \<notin> set ''Call Ann''"
    by simp
  from C6_decoding_and_append [of ?fs ?r ?body "''Call Ann''"] i p
  obtain ts where g: "File_getTasks ?r ?fs = Inr ts" and len: "length ts = length (lines_of ?body)"
    and each: "\<forall>j. j < length ts \<and> CHR '','' \<in> set (lines_of ?body ! j) \<longrightarrow>
            ts ! j = spec_display (lines_of ?body ! j)"
    and c: "contents (File_addTask ?r ''Call Ann'' ?fs ''tasks.txt'') =
        Some (text_of (contents (?fs ''tasks.txt'')) @ ''Call Ann'' @ '',false\<newline>'')"
    and l: "lines_of (text_of (contents (File_addTask ?r ''Call Ann'' ?fs ''tasks.txt''))) =
        lines_of (text_of (contents (?fs ''tasks.txt''))) @ [''Call Ann'' @ '',false'']"
    using w(1,2) n by auto
  from len have len3: "length ts = 3"
    by (simp add: ls)
  from each [rule_format, of 1] len3 have e1: "ts ! 1 = ''[X] Buy milk''"
    by (simp add: ls sp)
  from each [rule_format, of 2] len3 have e2: "ts ! 2 = ''[ ] Write report''"
    by (simp add: ls sp)
  from c have c': "contents (File_addTask ?r ''Call Ann'' ?fs ''tasks.txt'') =
      Some ''foo\<newline>Buy milk,true\<newline>Write report,false\<newline>Call Ann,false\<newline>''"
    by (simp add: w(3,4))
  from l have l': "lines_of (text_of (contents (File_addTask ?r ''Call Ann'' ?fs ''tasks.txt''))) =
      [''foo'', ''Buy milk,true'', ''Write report,false'', ''Call Ann,false'']"
    by (simp add: w(3,4) ls)
  from g len3 e1 e2 have "\<exists>ts. File_getTasks ?r ?fs = Inr ts \<and>
      length ts = 3 \<and> ts ! 1 = ''[X] Buy milk'' \<and> ts ! 2 = ''[ ] Write report''"
    by blast
  with i ls w(1,2) n c' l' show ?thesis
    by blast
qed

text \<open>
  The claim as it stands fails on a line without a comma: the line \<open>true\<close> is listed as
  completed, although nothing follows a first comma in it. It fails as well where the
  path does not open for writing: \<open>addTask\<close> writes nothing, and no file is there
  afterwards.
\<close>

theorem C6_counterexample:
  "File_getTasks (File_new ''tasks.txt'') (with_text no_files ''tasks.txt'' ''true\<newline>'') =
     Inr [''[X] true''] \<and>
   map spec_display (lines_of ''true\<newline>'') = [''[ ] true''] \<and>
   File_getTasks (File_new ''tasks.txt'') (with_text no_files ''tasks.txt'' ''true\<newline>'') \<noteq>
     Inr (map spec_display (lines_of ''true\<newline>'')) \<and>
   contents (File_addTask (File_new ''tasks.txt'') ''Buy milk'' no_files_read_only ''tasks.txt'') = None"
  by code_simp

subsection \<open>Claim C7\<close>

text \<open>
  Claim C7, amended. An entry that \<open>getTasks\<close> shows as \<open>[X]\<close> is still there and
  still shown as \<open>[X]\<close> after every further sequence of calls of the three methods:
  in the in-memory repository always, and in the file repository when the file is
  missing, empty or ends with a newline, as every file written by the repository
  does. The calls all return normally.
\<close>

theorem C7_completed_stays:
  "(shown_completed (InMemory_getTasks m) j \<longrightarrow> shown_completed (InMemory_result cs m) j) \<and>
   (closed_text (contents (fs (filePath r))) \<and> File_getTasks r fs = Inr ts \<and>
    shown_completed ts j \<longrightarrow>
      (\<exists>ts'. File_result r cs fs = Inr ts' \<and> shown_completed ts' j))"
proof (intro conjI impI)
  assume "shown_completed (InMemory_getTasks m) j"
  then show "shown_completed (InMemory_result cs m) j"
    by (simp add: InMemory_result_def InMemory_run_keeps)
next
  assume a: "closed_text (contents (fs (filePath r))) \<and> File_getTasks r fs = Inr ts \<and>
    shown_completed ts j"
  then have "shown_completed (map display_line (File_lines r fs)) j"
    by (auto simp: getTasks_lines)
  with a obtain fs' where "File_run r cs fs = Inr fs'"
    and "shown_completed (map display_line (File_lines r fs')) j"
    using File_run_keeps by blast
  then show "\<exists>ts'. File_result r cs fs = Inr ts' \<and> shown_completed ts' j"
    by (simp add: File_result_def getTasks_lines)
qed

theorem C7_completed_stays_witness:
  "shown_completed (InMemory_getTasks (InMemory_run [AddTask ''Buy milk'', MarkTaskCompleted 0] InMemory_new)) 0 \<and>
   shown_completed (InMemory_result [AddTask ''Write report'', MarkTaskCompleted 0, GetTasks]
      (InMemory_run [AddTask ''Buy milk'', MarkTaskCompleted 0] InMemory_new)) 0 \<and>
   closed_text (contents (with_text no_files ''tasks.txt'' ''Buy milk,true\<newline>'' ''tasks.txt'')) \<and>
   File_getTasks (File_new ''tasks.txt'') (with_text no_files ''tasks.txt'' ''Buy milk,true\<newline>'') =
     Inr [''[X] Buy milk''] \<and>
   shown_completed [''[X] Buy milk''] 0 \<and>
   (\<exists>ts'. File_result (File_new ''tasks.txt'') [AddTask ''Write report'', MarkTaskCompleted 0, GetTasks]
        (with_text no_files ''tasks.txt'' ''Buy milk,true\<newline>'') = Inr ts' \<and>
      shown_completed ts' 0)"
proof -
  let ?m = "InMemory_run [AddTask ''Buy milk'', MarkTaskCompleted 0] InMemory_new"
  let ?r = "File_new ''tasks.txt''"
  let ?fs = "with_text no_files ''tasks.txt'' ''Buy milk,true\<newline>''"
  have m: "shown_completed (InMemory_getTasks ?m) 0"
    by code_simp
  have c: "closed_text (contents (?fs ''tasks.txt''))" "filePath ?r = ''tasks.txt''"
    by (simp_all add: closed_text_def File_new_def)
  have f: "File_getTasks ?r ?fs = Inr [''[X] Buy milk'']"
    by code_simp
  have s: "shown_completed [''[X] Buy milk''] 0"
    by code_simp
  from C7_completed_stays [of ?m 0 "[AddTask ''Write report'', MarkTaskCompleted 0, GetTasks]"
      ?fs ?r "[''[X] Buy milk'']"] m c f s
  show ?thesis
    by simp
qed

text \<open>
  The claim as it stands fails on a file whose last line has no newline after it:
  \<open>addTask\<close> appends to that line, and the entry that was shown as completed is shown
  as not completed.
\<close>

theorem C7_counterexample:
  "File_getTasks (File_new ''tasks.txt'') (with_text no_files ''tasks.txt'' ''a,true'') =
     Inr [''[X] a''] \<and>
   File_result (File_new ''tasks.txt'') [AddTask ''b''] (with_text no_files ''tasks.txt'' ''a,true'') =
     Inr [''[ ] a'']"
  by code_simp

subsection \<open>Claim C8\<close>

text \<open>
  Claim C8. Calling \<open>markTaskCompleted\<close> twice in a row with an index leaves the
  repository as one call does: the same in-memory repository, and the same file system
  (so the same file contents and the same listing), and the call returns normally.
  This holds for every index, the valid ones among them.
\<close>

theorem C8_marking_twice:
  "InMemory_run [MarkTaskCompleted index, MarkTaskCompleted index] m =
     InMemory_run [MarkTaskCompleted index] m \<and>
   File_run r [MarkTaskCompleted index, MarkTaskCompleted index] fs =
     File_run r [MarkTaskCompleted index] fs \<and>
   (\<exists>fs'. File_run r [MarkTaskCompleted index] fs = Inr fs')"
proof (intro conjI)
  show "InMemory_run [MarkTaskCompleted index, MarkTaskCompleted index] m =
     InMemory_run [MarkTaskCompleted index] m"
    by (simp add: InMemory_markTaskCompleted_def)
next
  obtain fs1 where fs1: "File_markTaskCompleted r index fs = Inr fs1"
    using mark_returns by blast
  have "File_markTaskCompleted r index fs1 = Inr fs1"
  proof (cases "may_write (fs (filePath r))")
    case True
    with fs1 have eq: "fs1 = with_text fs (filePath r) (write_lines (new_lines index (File_lines r fs)))"
      by (simp add: markTaskCompleted_lines)
    have w: "may_write (fs1 (filePath r))"
      using True by (simp add: eq)
    have "File_lines r fs1 = new_lines index (File_lines r fs)"
      using lines_after_mark [OF fs1] True by simp
    then have "File_markTaskCompleted r index fs1 =
        Inr (with_text fs1 (filePath r) (write_lines (new_lines index (File_lines r fs))))"
      using w by (simp add: markTaskCompleted_lines new_lines_twice)
    also have "with_text fs1 (filePath r) (write_lines (new_lines index (File_lines r fs))) = fs1"
      unfolding eq by simp
    finally show ?thesis .
  next
    case False
    with fs1 have "fs1 = fs"
      by (simp add: markTaskCompleted_lines)
    with fs1 show ?thesis by simp
  qed
  with fs1 show "File_run r [MarkTaskCompleted index, MarkTaskCompleted index] fs =
     File_run r [MarkTaskCompleted index] fs"
    by simp
  from fs1 show "\<exists>fs'. File_run r [MarkTaskCompleted index] fs = Inr fs'"
    by simp
qed

theorem C8_marking_twice_witness:
  "InMemory_run [MarkTaskCompleted 0, MarkTaskCompleted 0]
      (InMemory_addTask ''Buy milk'' InMemory_new) =
     InMemory_run [MarkTaskCompleted 0] (InMemory_addTask ''Buy milk'' InMemory_new) \<and>
   File_run (File_new ''tasks.txt'') [MarkTaskCompleted 0, MarkTaskCompleted 0]
      (File_addTask (File_new ''tasks.txt'') ''Buy milk'' no_files) =
     File_run (File_new ''tasks.txt'') [MarkTaskCompleted 0]
      (File_addTask (File_new ''tasks.txt'') ''Buy milk'' no_files) \<and>
   (\<exists>fs'. File_run (File_new ''tasks.txt'') [MarkTaskCompleted 0]
      (File_addTask (File_new ''tasks.txt'') ''Buy milk'' no_files) = Inr fs')"
  by (rule C8_marking_twice)

subsection \<open>Claim C9\<close>

text \<open>
  Claim C9. For the file repository, \<open>getTasks\<close> returns the empty sequence, and raises
  nothing, when the file does not exist or does not open for reading.
\<close>

theorem C9_getTasks_without_file:
  "contents (fs (filePath r)) = None \<or> \<not> may_read (fs (filePath r)) \<Longrightarrow>
     File_getTasks r fs = Inr []"
  by (auto simp: File_getTasks_def ifstream_def split: option.splits)

theorem C9_getTasks_without_file_witness:
  "(contents (no_files (filePath (File_new ''tasks.txt''))) = None \<or>
      \<not> may_read (no_files (filePath (File_new ''tasks.txt'')))) \<and>
   File_getTasks (File_new ''tasks.txt'') no_files = Inr []"
proof -
  have h: "contents (no_files (filePath (File_new ''tasks.txt''))) = None \<or>
      \<not> may_read (no_files (filePath (File_new ''tasks.txt'')))"
    by (simp add: no_files_def)
  show ?thesis
    using h C9_getTasks_without_file [where fs = no_files and r = "File_new ''tasks.txt''"]
    by blast
qed

subsection \<open>Claim C10\<close>

text \<open>
  Claim C10, amended. When the path opens for writing, every call of
  \<open>markTaskCompleted\<close> of the file repository, whatever the index, replaces the contents
  of the file by the lines it read, each followed by a newline, the line at a valid
  index being replaced by its marked form; with an index out of bounds these are
  exactly the lines read, and a file that did not exist is created empty.
\<close>

theorem C10_markTaskCompleted_rewrites:
  "may_write (fs (filePath r)) \<longrightarrow>
     File_markTaskCompleted r index fs =
       Inr (with_text fs (filePath r) (write_lines (new_lines index (File_lines r fs)))) \<and>
     (index < 0 \<or> int (length (File_lines r fs)) \<le> index \<longrightarrow>
        File_markTaskCompleted r index fs =
          Inr (with_text fs (filePath r) (write_lines (File_lines r fs)))) \<and>
     (contents (fs (filePath r)) = None \<longrightarrow>
        File_markTaskCompleted r index fs = Inr (with_text fs (filePath r) []))"
proof
  assume w: "may_write (fs (filePath r))"
  then have m: "File_markTaskCompleted r index fs =
      Inr (with_text fs (filePath r) (write_lines (new_lines index (File_lines r fs))))"
    by (simp add: markTaskCompleted_lines)
  have "File_markTaskCompleted r index fs =
      Inr (with_text fs (filePath r) (write_lines (File_lines r fs)))"
    if "index < 0 \<or> int (length (File_lines r fs)) \<le> index"
    using m new_lines_invalid [OF that] by simp
  moreover have "File_markTaskCompleted r index fs = Inr (with_text fs (filePath r) [])"
    if "contents (fs (filePath r)) = None"
    using m that by (simp add: lines_unreadable)
  ultimately show "File_markTaskCompleted r index fs =
       Inr (with_text fs (filePath r) (write_lines (new_lines index (File_lines r fs)))) \<and>
     (index < 0 \<or> int (length (File_lines r fs)) \<le> index \<longrightarrow>
        File_markTaskCompleted r index fs =
          Inr (with_text fs (filePath r) (write_lines (File_lines r fs)))) \<and>
     (contents (fs (filePath r)) = None \<longrightarrow>
        File_markTaskCompleted r index fs = Inr (with_text fs (filePath r) []))"
    using m by blast
qed

theorem C10_markTaskCompleted_rewrites_witness:
  "may_write (no_files ''tasks.txt'') \<and> contents (no_files ''tasks.txt'') = None \<and>
   (7 < (0::int) \<or> int (length (File_lines (File_new ''tasks.txt'') no_files)) \<le> 7) \<and>
   File_markTaskCompleted (File_new ''tasks.txt'') 7 no_files =
     Inr (with_text no_files ''tasks.txt'' []) \<and>
   may_write (with_text no_files ''tasks.txt'' ''Buy milk,false\<newline>Write report,false'' ''tasks.txt'') \<and>
   File_markTaskCompleted (File_new ''tasks.txt'') 1
       (with_text no_files ''tasks.txt'' ''Buy milk,false\<newline>Write report,false'') =
     Inr (with_text no_files ''tasks.txt'' ''Buy milk,false\<newline>Write report,true\<newline>'')"
proof -
  let ?r = "File_new ''tasks.txt''"
  let ?fs = "with_text no_files ''tasks.txt'' ''Buy milk,false\<newline>Write report,false''"
  have h: "may_write (no_files (filePath ?r))"
    "contents (no_files (filePath ?r)) = None"
    "filePath ?r = ''tasks.txt''"
    by (simp_all add: no_files_def File_new_def)
  have l: "File_lines ?r no_files = []"
    by (rule lines_unreadable) (simp add: no_files_def)
  have w: "may_write (?fs ''tasks.txt'')"
    by (simp add: no_files_def)
  have n: "write_lines (new_lines 1 (File_lines ?r ?fs)) =
      ''Buy milk,false\<newline>Write report,true\<newline>''"
    by code_simp
  show ?thesis
    using C10_markTaskCompleted_rewrites [of no_files ?r 7]
      C10_markTaskCompleted_rewrites [of ?fs ?r 1] h l w n
    by simp
qed

text \<open>
  The claim as it stands fails where the path does not open for writing: the file that
  did not exist is not created, and the file system is left as it was.
\<close>

theorem C10_counterexample:
  "contents (no_files_read_only ''tasks.txt'') = None \<and>
   File_markTaskCompleted (File_new ''tasks.txt'') 0 no_files_read_only = Inr no_files_read_only"
  by (simp add: markTaskCompleted_lines no_files_read_only_def File_new_def)

end
